theory Spec2Isabelle
  imports Main "HOL-Library.Sublist" "HOL-Library.Multiset"
begin

section \<open>v2/pkg/protocols/http/utils.go\<close>

text \<open>
  A shallow embedding of the helpers of \<^verbatim>\<open>utils.go\<close>. Go byte slices and Go strings are
  both byte sequences, written \<open>string\<close> (a list of 8-bit characters). The functions of the
  Go standard library and of other modules that the file calls are not part of it: they
  enter the embedding as arguments, and every theorem holds for each of them.
\<close>

type_synonym bytes = string

definition newline :: char where
  "newline = CHR 0x0A"

subsection \<open>headersToString\<close>

text \<open>
  \<^verbatim>\<open>http.Header\<close> is the Go map \<^verbatim>\<open>map[string][]string\<close>. A Go map keeps no order: the
  language leaves the order in which \<^verbatim>\<open>range\<close> visits its entries unspecified, and it may
  change from one loop to the next. \<open>range_of headers entries\<close> says that \<open>entries\<close> is
  one order in which \<^verbatim>\<open>for header, values := range headers\<close> may deliver the map: every
  key once, with its value.
\<close>

type_synonym Header = "string \<rightharpoonup> string list"

definition range_of :: "Header \<Rightarrow> (string \<times> string list) list \<Rightarrow> bool" where
  "range_of headers entries = (distinct (map fst entries) \<and> map_of entries = headers)"

text \<open>
  The inner loop, lines 74 to 82: \<open>i\<close> is the index of the value at the head of the list,
  \<open>n\<close> is \<^verbatim>\<open>len(values)\<close>; \<^verbatim>\<open>len(values)-1\<close> is computed on Go's signed \<^verbatim>\<open>int\<close>.
\<close>

fun writeValues :: "string \<Rightarrow> nat \<Rightarrow> nat \<Rightarrow> string list \<Rightarrow> string \<Rightarrow> string" where
  "writeValues header n i [] builder = builder"
| "writeValues header n i (v # rest) builder =
     writeValues header n (Suc i) rest
       (if int i \<noteq> int n - 1
        then ((builder @ v) @ [newline]) @ header @ '': ''
        else builder @ v)"

text \<open>The body of the outer loop, lines 71 to 83, for one entry of the map.\<close>

definition writeHeader :: "string \<Rightarrow> string list \<Rightarrow> string \<Rightarrow> string" where
  "writeHeader header vs builder =
     writeValues header (length vs) 0 vs ((builder @ header) @ '': '') @ [newline]"

text \<open>The outer loop over the entries in the order \<^verbatim>\<open>range\<close> delivers them.\<close>

fun writeHeaders :: "(string \<times> string list) list \<Rightarrow> string \<Rightarrow> string" where
  "writeHeaders [] builder = builder"
| "writeHeaders ((header, vs) # entries) builder =
     writeHeaders entries (writeHeader header vs builder)"

definition headersToString :: "(string \<times> string list) list \<Rightarrow> string" where
  "headersToString entries = writeHeaders entries []"

text \<open>
  What the specification asks of one header name: a line \<open>Name: value\<close> for each value.
  A name with no value at all still gets its prefix and the closing newline.
\<close>

definition header_lines :: "string \<Rightarrow> string list \<Rightarrow> string" where
  "header_lines name vs = concat (map (\<lambda>v. name @ '': '' @ v @ [newline]) vs)"

definition header_block :: "string \<times> string list \<Rightarrow> string" where
  "header_block e =
     (if snd e = [] then fst e @ '': '' @ [newline] else header_lines (fst e) (snd e))"

subsection \<open>Errors, panics and readers\<close>

text \<open>
  A Go \<^verbatim>\<open>error\<close> value: \<^verbatim>\<open>io.EOF\<close>, which \<^verbatim>\<open>rawHasBody\<close> tests for, or any other error,
  told apart by its message. A nil error is \<open>None\<close> of \<open>go_error option\<close>.
\<close>

datatype go_error = io_EOF | Error string

text \<open>
  A call either returns or panics (a nil pointer dereference, which Go does not report as
  an \<^verbatim>\<open>error\<close> value). A call that never ends has no outcome at all: the functions that
  can loop return an \<open>outcome option\<close> and \<open>None\<close> stands for it.
\<close>

datatype 'a outcome = Returned 'a | Panicked

text \<open>
  An \<^verbatim>\<open>io.Reader\<close> as its consumer sees it: the bytes it delivers before it ends, and how it
  ends, \<open>None\<close> for \<^verbatim>\<open>io.EOF\<close> and \<open>Some e\<close> for a failed read. The error comes on the
  \<^verbatim>\<open>Read\<close> after the last byte. \<open>NoBody\<close> is the sentinel \<^verbatim>\<open>http.NoBody\<close>, which delivers
  nothing. A nil reader is \<open>None\<close> of \<open>reader option\<close>.
\<close>

datatype reader = NoBody | Reader bytes "go_error option"

text \<open>
  \<^verbatim>\<open>ioutil.ReadAll\<close> reads until \<^verbatim>\<open>io.EOF\<close> or an error and returns the data it read so far
  together with the error; \<^verbatim>\<open>io.EOF\<close> is reported as a nil error.
\<close>

fun ioutil_ReadAll :: "reader \<Rightarrow> bytes \<times> go_error option" where
  "ioutil_ReadAll NoBody = ([], None)"
| "ioutil_ReadAll (Reader data e) = (data, e)"


subsection \<open>Responses and requests\<close>

text \<open>
  \<^verbatim>\<open>*http.Response\<close> and \<^verbatim>\<open>*http.Request\<close> are pointers into a store of objects; a nil pointer
  is \<open>None\<close>. Go is memory safe, so every pointer that is not nil holds an object: the store
  is total. The records have the fields that \<^verbatim>\<open>utils.go\<close> reads or writes, and those that
  the library functions it calls render. \<open>reqBody\<close> is the field \<^verbatim>\<open>Body\<close> of a request.
\<close>

type_synonym addr = nat

record http_Response =
  Status :: string
  Header :: Header
  Body :: "reader option"
  Request :: "addr option"

record http_Request =
  URL :: string
  reqBody :: "reader option"
  Response :: "addr option"

record heap =
  responses :: "addr \<Rightarrow> http_Response"
  requests :: "addr \<Rightarrow> http_Request"

subsection \<open>dumpResponseWithRedirectChain\<close>

text \<open>
  Modelled from the spec: \<^verbatim>\<open>tostring.UnsafeToString\<close> (package
  \<^verbatim>\<open>pkg/protocols/common/tostring\<close> of this repository) is not among the sources. The
  specification appends the rendered bytes to the record as they are, so the conversion
  from a byte slice to a string keeps every byte.
\<close>

definition UnsafeToString :: "bytes \<Rightarrow> string" where
  "UnsafeToString bs = bs"

text \<open>
  The loop of lines 42 to 59. \<open>DumpResponse r\<close> is what \<^verbatim>\<open>httputil.DumpResponse(r, false)\<close>
  returns (the status line and the headers, or an error); it does not read the body.
  \<open>redirects\<close> is the slice of records gathered so far, \<open>redirectChain\<close> the buffer, empty
  at the start of every round. Line 57 reads \<^verbatim>\<open>redirectResp.Request.Response\<close> with no test
  of \<^verbatim>\<open>redirectResp.Request\<close>: on a nil request the program panics. On a chain of links
  that runs in a circle the loop never ends. The \<open>Body\<close> of a response is the reader as
  the loop finds it when it comes to the response; each response has a body of its own.
\<close>

partial_function (option) walk ::
  "(http_Response \<Rightarrow> go_error + bytes) \<Rightarrow> heap \<Rightarrow> addr option \<Rightarrow> string list
     \<Rightarrow> string list outcome option" where
  "walk DumpResponse h redirectResp redirects =
     (case redirectResp of
        None \<Rightarrow> Some (Returned redirects)
      | Some a \<Rightarrow>
          (case DumpResponse (responses h a) of
             Inl err \<Rightarrow> Some (Returned redirects)
           | Inr respData \<Rightarrow>
               (let body = (case Body (responses h a) of
                              None \<Rightarrow> []
                            | Some b \<Rightarrow> fst (ioutil_ReadAll b));
                    redirectChain = [] @ UnsafeToString respData;
                    redirectChain = (if length body > 0
                                     then redirectChain @ UnsafeToString body
                                     else redirectChain);
                    redirects = redirects @ [redirectChain]
                in case Request (responses h a) of
                     None \<Rightarrow> Some Panicked
                   | Some q \<Rightarrow> walk DumpResponse h (Response (requests h q)) redirects)))"

text \<open>
  The loop of lines 60 to 62: \<^verbatim>\<open>for i := len(redirects) - 1; i >= 0; i--\<close>, on Go's signed
  \<^verbatim>\<open>int\<close>. The index is in range at every read.
\<close>

function writeBackwards :: "string list \<Rightarrow> int \<Rightarrow> bytes \<Rightarrow> bytes" where
  "writeBackwards redirects i redirectChain =
     (if i \<ge> 0
      then writeBackwards redirects (i - 1) (redirectChain @ redirects ! nat i)
      else redirectChain)"
  by pat_completeness auto
termination
  by (relation "measure (\<lambda>(redirects, i, redirectChain). nat (i + 1))") auto

text \<open>
  The whole function. \<^verbatim>\<open>httputil.DumpResponse\<close> reads the fields of its argument at once,
  so a nil \<open>resp\<close> panics on line 27, before the test of line 39. A slice and an error are
  returned: on an error the slice is nil, otherwise the error is.
\<close>

definition dumpResponseWithRedirectChain ::
  "(http_Response \<Rightarrow> go_error + bytes) \<Rightarrow> heap \<Rightarrow> addr option \<Rightarrow> bytes
     \<Rightarrow> (go_error + bytes) outcome option" where
  "dumpResponseWithRedirectChain DumpResponse h resp body =
     (case resp of
        None \<Rightarrow> Some Panicked
      | Some a \<Rightarrow>
          (case DumpResponse (responses h a) of
             Inl err \<Rightarrow> Some (Returned (Inl err))
           | Inr respData \<Rightarrow>
               (let redirectChain = ([] @ UnsafeToString respData) @ body;
                    redirects = [] @ [redirectChain];
                    redirectResp = (case Request (responses h a) of
                                      None \<Rightarrow> None
                                    | Some q \<Rightarrow> Response (requests h q))
                in case walk DumpResponse h redirectResp redirects of
                     None \<Rightarrow> None
                   | Some Panicked \<Rightarrow> Some Panicked
                   | Some (Returned redirects) \<Rightarrow>
                       Some (Returned (Inr
                         (writeBackwards redirects (int (length redirects) - 1) []))))))"

text \<open>
  The shape of the store that the properties speak of. \<open>previous h a\<close> is the response one hop
  before \<open>a\<close>: \<open>a\<close>'s request's response. \<open>chain h p hops p'\<close>: following the links from the
  pointer \<open>p\<close> passes the responses \<open>hops\<close>, each through a request that is there, and
  arrives at the pointer \<open>p'\<close>.
\<close>

definition previous :: "heap \<Rightarrow> addr \<Rightarrow> addr option" where
  "previous h a =
     (case Request (responses h a) of None \<Rightarrow> None | Some q \<Rightarrow> Response (requests h q))"

fun chain :: "heap \<Rightarrow> addr option \<Rightarrow> addr list \<Rightarrow> addr option \<Rightarrow> bool" where
  "chain h p [] p' = (p = p')"
| "chain h p (a # hops) p' =
     (p = Some a \<and> Request (responses h a) \<noteq> None \<and> chain h (previous h a) hops p')"

text \<open>
  The record of one hop, as the specification has it: the rendered status line and
  headers, then the bytes of the body. For the final response the body is the slice given
  by the caller; for an earlier one it is what can be read from its \<^verbatim>\<open>Body\<close>.
\<close>

definition rendered :: "(http_Response \<Rightarrow> go_error + bytes) \<Rightarrow> heap \<Rightarrow> addr \<Rightarrow> bytes" where
  "rendered DumpResponse h a =
     (case DumpResponse (responses h a) of Inl err \<Rightarrow> [] | Inr respData \<Rightarrow> respData)"

definition renders :: "(http_Response \<Rightarrow> go_error + bytes) \<Rightarrow> heap \<Rightarrow> addr \<Rightarrow> bool" where
  "renders DumpResponse h a = (case DumpResponse (responses h a) of Inl err \<Rightarrow> False | Inr respData \<Rightarrow> True)"

definition body_read :: "heap \<Rightarrow> addr \<Rightarrow> bytes" where
  "body_read h a = (case Body (responses h a) of None \<Rightarrow> [] | Some b \<Rightarrow> fst (ioutil_ReadAll b))"

definition hop_record :: "(http_Response \<Rightarrow> go_error + bytes) \<Rightarrow> heap \<Rightarrow> addr \<Rightarrow> bytes" where
  "hop_record DumpResponse h a = rendered DumpResponse h a @ body_read h a"

text \<open>
  The walk stops without a panic at a nil pointer, and at a response that does not
  render (the \<^verbatim>\<open>break\<close> of line 47).
\<close>

definition ends_walk :: "(http_Response \<Rightarrow> go_error + bytes) \<Rightarrow> heap \<Rightarrow> addr option \<Rightarrow> bool" where
  "ends_walk DumpResponse h p = (case p of None \<Rightarrow> True | Some x \<Rightarrow> \<not> renders DumpResponse h x)"

text \<open>
  The links between responses as a relation: \<open>(b, a)\<close> when \<open>b\<close> is one hop before \<open>a\<close>.
\<close>

definition backlinks :: "heap \<Rightarrow> (addr \<times> addr) set" where
  "backlinks h = {(b, a). previous h a = Some b}"

subsection \<open>handleDecompression\<close>

text \<open>
  The string functions of the standard library that line 105 calls. Both take a byte-wise
  path on a string that is all ASCII and a path over Unicode runes on any other string.
  The byte-wise paths are written out: \<^verbatim>\<open>strings.ToLower\<close> adds \<^verbatim>\<open>'a' - 'A'\<close> to the bytes
  from \<open>A\<close> to \<open>Z\<close>, and \<^verbatim>\<open>strings.TrimSpace\<close> drops tab, line feed, vertical tab, form
  feed, carriage return and space from both ends. The Unicode paths are the library's
  and enter as arguments: \<open>Map_ToLower s\<close> is \<^verbatim>\<open>strings.Map(unicode.ToLower, s)\<close>, which
  lower-cases every rune (U+0130, for one, becomes the ASCII letter \<open>i\<close>), and
  \<open>TrimFunc_IsSpace s\<close> is what \<^verbatim>\<open>strings.TrimSpace\<close> returns for a string \<open>s\<close> that holds a
  byte from 0x80 on.
\<close>

record unicode_strings =
  Map_ToLower :: "string \<Rightarrow> string"
  TrimFunc_IsSpace :: "string \<Rightarrow> string"

definition isASCII :: "string \<Rightarrow> bool" where
  "isASCII s = list_all (\<lambda>c. (of_char c :: nat) < 128) s"

definition strings_ToLower :: "unicode_strings \<Rightarrow> string \<Rightarrow> string" where
  "strings_ToLower U s =
     (if isASCII s
      then map (\<lambda>c. if 65 \<le> (of_char c :: nat) \<and> (of_char c :: nat) \<le> 90
                    then char_of (of_char c + 32 :: nat) else c) s
      else Map_ToLower U s)"

definition isSpace :: "char \<Rightarrow> bool" where
  "isSpace c = ((of_char c :: nat) \<in> {9, 10, 11, 12, 13, 32})"

definition strings_TrimSpace :: "unicode_strings \<Rightarrow> string \<Rightarrow> string" where
  "strings_TrimSpace U s =
     (if isASCII s
      then rev (dropWhile isSpace (rev (dropWhile isSpace s)))
      else TrimFunc_IsSpace U s)"

text \<open>\<^verbatim>\<open>strings.Contains(s, substr)\<close>: \<open>substr\<close> stands in \<open>s\<close> as a contiguous run.\<close>

definition strings_Contains :: "string \<Rightarrow> string \<Rightarrow> bool" where
  "strings_Contains s substr = sublist substr s"

text \<open>
  \<^verbatim>\<open>Header.Get\<close> returns the first value stored under the canonical form of the key, and
  the empty string when there is none. \<open>Content-Encoding\<close>, the one key it is called with,
  is its own canonical form.
\<close>

definition Header_Get :: "Header \<Rightarrow> string \<Rightarrow> string" where
  "Header_Get headers key =
     (case headers key of None \<Rightarrow> [] | Some [] \<Rightarrow> [] | Some (v # vs) \<Rightarrow> v)"

text \<open>
  \<open>gzip_NewReader bodyOrig\<close> is what \<^verbatim>\<open>gzip.NewReader(bytes.NewReader(bodyOrig))\<close>
  returns: an error when the header of the data is not a gzip header, otherwise a reader
  of the decompressed bytes, which may still fail while it is read. The deferred
  \<^verbatim>\<open>Close\<close> changes no result. \<open>U\<close> holds the Unicode paths of the string functions.
\<close>

definition handleDecompression ::
  "unicode_strings \<Rightarrow> (bytes \<Rightarrow> go_error + reader) \<Rightarrow> heap \<Rightarrow> addr option \<Rightarrow> bytes
     \<Rightarrow> bytes \<times> go_error option" where
  "handleDecompression U gzip_NewReader h resp bodyOrig =
     (case resp of
        None \<Rightarrow> (bodyOrig, None)
      | Some a \<Rightarrow>
          (let encodingHeader = strings_TrimSpace U (strings_ToLower U
                 (Header_Get (Header (responses h a)) ''Content-Encoding''))
           in if strings_Contains encodingHeader ''gzip''
              then (case gzip_NewReader bodyOrig of
                      Inl err \<Rightarrow> (bodyOrig, Some err)
                    | Inr gzipreader \<Rightarrow>
                        (case ioutil_ReadAll gzipreader of
                           (bodyDec, Some err) \<Rightarrow> (bodyOrig, Some err)
                         | (bodyDec, None) \<Rightarrow> (bodyDec, None)))
              else (bodyOrig, None)))"

text \<open>
  The header value that line 106 looks at, and what it means here that \<open>body\<close> is the gzip
  compression of \<open>x\<close>: the decoder accepts \<open>body\<close> and delivers \<open>x\<close> without an error.
\<close>

definition encodingHeader_of :: "unicode_strings \<Rightarrow> heap \<Rightarrow> addr \<Rightarrow> string" where
  "encodingHeader_of U h a =
     strings_TrimSpace U
       (strings_ToLower U (Header_Get (Header (responses h a)) ''Content-Encoding''))"

definition gunzips_to :: "(bytes \<Rightarrow> go_error + reader) \<Rightarrow> bytes \<Rightarrow> bytes \<Rightarrow> bool" where
  "gunzips_to gzip_NewReader body x =
     (case gzip_NewReader body of
        Inl err \<Rightarrow> False
      | Inr gzipreader \<Rightarrow> ioutil_ReadAll gzipreader = (x, None))"

subsection \<open>rawHasBody\<close>


subsection \<open>dump\<close>

text \<open>
  Modelled from the spec: the types \<^verbatim>\<open>generatedRequest\<close> and \<^verbatim>\<open>raw.Request\<close> of this
  repository are not among the sources. A generated request holds a structured request
  or a raw request (method, path, headers, body text and the headers to be sent as
  they are). The structured request is a \<^verbatim>\<open>retryablehttp.Request\<close>: an \<^verbatim>\<open>http.Request\<close>
  together with a source of its own for the bytes of the body. \<open>BodyBytes\<close> is what the
  call \<^verbatim>\<open>BodyBytes()\<close> returns, the bytes or an error; the library takes them from that
  source and not from the \<^verbatim>\<open>Body\<close> of the \<^verbatim>\<open>http.Request\<close>.
\<close>

record retryablehttp_Request =
  BodyBytes :: "go_error + bytes"
  httpRequest :: "http_Request option"

record raw_Request =
  Method :: string
  Path :: string
  Headers :: "string \<rightharpoonup> string"
  Data :: string
  UnsafeHeaders :: "(string \<times> string) list"

record generatedRequest =
  request :: "retryablehttp_Request option"
  rawRequest :: "raw_Request option"

text \<open>
  \<^verbatim>\<open>httputil.DumpRequestOut(req, true)\<close> as the library documents it: it consumes
  \<^verbatim>\<open>req.Body\<close> and puts in its place a new reader that yields the same bytes.
  \<open>drainBody\<close> reads the body to its end and gives two readers over the bytes read, or
  the error of the read; a nil body and \<^verbatim>\<open>http.NoBody\<close> give \<^verbatim>\<open>http.NoBody\<close> twice. The
  second reader goes into the request while it is rendered, the first is stored in the
  request when the call ends. \<open>writeRequest req\<close> is the rendering of the request on the
  wire by the library's transport, body included; it is an argument.
\<close>

fun drainBody :: "reader option \<Rightarrow> reader option \<times> reader option \<times> go_error option" where
  "drainBody None = (Some NoBody, Some NoBody, None)"
| "drainBody (Some NoBody) = (Some NoBody, Some NoBody, None)"
| "drainBody (Some (Reader data None)) =
     (Some (Reader data None), Some (Reader data None), None)"
| "drainBody (Some (Reader data (Some err))) = (None, Some (Reader [] (Some err)), Some err)"

definition httputil_DumpRequestOut ::
  "(http_Request \<Rightarrow> go_error + bytes) \<Rightarrow> http_Request \<Rightarrow> (go_error + bytes) \<times> http_Request" where
  "httputil_DumpRequestOut writeRequest req =
     (case drainBody (reqBody req) of
        (save, body2, Some err) \<Rightarrow> (Inl err, req\<lparr>reqBody := body2\<rparr>)
      | (save, body2, None) \<Rightarrow>
          (writeRequest (req\<lparr>reqBody := body2\<rparr>), req\<lparr>reqBody := save\<rparr>))"

text \<open>
  \<open>dump\<close>, lines 89 to 97. \<open>DumpRequestRaw\<close> is \<^verbatim>\<open>rawhttp.DumpRequestRaw\<close> and
  \<open>ExpandMapValues\<close> is \<^verbatim>\<open>generators.ExpandMapValues\<close>. Line 93 writes the field \<^verbatim>\<open>Body\<close> of
  the request and \<^verbatim>\<open>DumpRequestOut\<close> writes it again, so the request as the call leaves
  it is returned next to the result. A nil \<open>req\<close>, a structured request with no
  \<^verbatim>\<open>http.Request\<close> in it and a request with neither variant panic.
\<close>

definition dump ::
  "(http_Request \<Rightarrow> go_error + bytes)
   \<Rightarrow> (string \<Rightarrow> string \<Rightarrow> string \<Rightarrow> Header \<Rightarrow> reader \<Rightarrow> (string \<times> string) list \<Rightarrow> go_error + bytes)
   \<Rightarrow> ((string \<rightharpoonup> string) \<Rightarrow> Header)
   \<Rightarrow> generatedRequest option \<Rightarrow> string
   \<Rightarrow> ((go_error + bytes) \<times> generatedRequest) outcome" where
  "dump writeRequest DumpRequestRaw ExpandMapValues req reqURL =
     (case req of
        None \<Rightarrow> Panicked
      | Some g \<Rightarrow>
          (case request g of
             Some r \<Rightarrow>
               (let bodyBytes = (case BodyBytes r of Inl err \<Rightarrow> [] | Inr bs \<Rightarrow> bs)
                in case httpRequest r of
                     None \<Rightarrow> Panicked
                   | Some hr \<Rightarrow>
                       (let hr = hr\<lparr>reqBody := Some (Reader bodyBytes None)\<rparr>;
                            (result, hr) = httputil_DumpRequestOut writeRequest hr
                        in Returned (result, g\<lparr>request := Some (r\<lparr>httpRequest := Some hr\<rparr>)\<rparr>)))
           | None \<Rightarrow>
               (case rawRequest g of
                  None \<Rightarrow> Panicked
                | Some rr \<Rightarrow>
                    Returned
                      (DumpRequestRaw (Method rr) reqURL (Path rr) (ExpandMapValues (Headers rr))
                         (Reader (Data rr) None) (UnsafeHeaders rr), g))))"

subsection \<open>Example data\<close>

text \<open>
  Concrete inputs on which the theorems below are instantiated. \<open>render_status\<close> stands
  in for \<^verbatim>\<open>httputil.DumpResponse\<close>: it renders the status line and fails on a response
  that has none.
\<close>

definition two_headers :: Header where
  "two_headers = [''A'' \<mapsto> [''1''], ''B'' \<mapsto> [''2'']]"

definition render_status :: "http_Response \<Rightarrow> go_error + bytes" where
  "render_status r =
     (if Status r = [] then Inl (Error ''malformed response'') else Inr (Status r @ [newline]))"

definition blank_response :: http_Response where
  "blank_response = \<lparr>Status = [], Header = Map.empty, Body = None, Request = None\<rparr>"

definition blank_request :: http_Request where
  "blank_request = \<lparr>URL = [], reqBody = None, Response = None\<rparr>"

definition redirect_heap :: heap where
  "redirect_heap =
     \<lparr>responses = (\<lambda>a. blank_response)
        (0 := \<lparr>Status = ''200'', Header = Map.empty, Body = None, Request = Some 0\<rparr>,
         1 := \<lparr>Status = ''302'', Header = Map.empty,
                Body = Some (Reader ''moved'' None), Request = Some 1\<rparr>,
         2 := \<lparr>Status = ''301'', Header = Map.empty, Body = Some NoBody, Request = Some 2\<rparr>),
      requests = (\<lambda>a. blank_request)
        (0 := \<lparr>URL = ''/c'', reqBody = None, Response = Some 1\<rparr>,
         1 := \<lparr>URL = ''/b'', reqBody = None, Response = Some 2\<rparr>,
         2 := \<lparr>URL = ''/a'', reqBody = None, Response = None\<rparr>)\<rparr>"

definition broken_heap :: heap where
  "broken_heap =
     \<lparr>responses = (\<lambda>a. blank_response)
        (0 := \<lparr>Status = ''200'', Header = Map.empty, Body = None, Request = Some 0\<rparr>,
         1 := \<lparr>Status = ''302'', Header = Map.empty,
                Body = Some (Reader ''mov'' (Some (Error ''connection reset''))),
                Request = Some 1\<rparr>,
         2 := \<lparr>Status = [], Header = Map.empty, Body = None, Request = Some 2\<rparr>),
      requests = (\<lambda>a. blank_request)
        (0 := \<lparr>URL = ''/c'', reqBody = None, Response = Some 1\<rparr>,
         1 := \<lparr>URL = ''/b'', reqBody = None, Response = Some 2\<rparr>,
         2 := \<lparr>URL = ''/a'', reqBody = None, Response = None\<rparr>)\<rparr>"

definition nil_request_heap :: heap where
  "nil_request_heap =
     \<lparr>responses = (\<lambda>a. blank_response)
        (0 := \<lparr>Status = ''200'', Header = Map.empty, Body = None, Request = Some 0\<rparr>,
         1 := \<lparr>Status = ''302'', Header = Map.empty, Body = None, Request = None\<rparr>),
      requests = (\<lambda>a. blank_request)
        (0 := \<lparr>URL = ''/b'', reqBody = None, Response = Some 1\<rparr>)\<rparr>"

definition loop_heap :: heap where
  "loop_heap =
     \<lparr>responses = (\<lambda>a. \<lparr>Status = ''302'', Header = Map.empty, Body = None, Request = Some 0\<rparr>),
      requests = (\<lambda>a. \<lparr>URL = ''/a'', reqBody = None, Response = Some 0\<rparr>)\<rparr>"

text \<open>
  \<open>gzip_abc\<close> is the gzip stream of the three bytes \<open>abc\<close>: the ten bytes of the header,
  the deflate block, the CRC-32 of \<open>abc\<close> and its length. \<open>example_gzip\<close> stands in for
  \<^verbatim>\<open>gzip.NewReader\<close> on the bodies used below: no bytes at all, the stream of \<open>abc\<close>, the
  same stream cut off inside the deflate block, which fails while it is read, and text
  that is no gzip stream.
\<close>

definition gzip_abc :: bytes where
  "gzip_abc =
     [CHR 0x1F, CHR 0x8B, CHR 0x08, CHR 0x00, CHR 0x00, CHR 0x00, CHR 0x00, CHR 0x00,
      CHR 0x02, CHR 0x03, CHR 0x4B, CHR 0x4C, CHR 0x4A, CHR 0x06, CHR 0x00, CHR 0xC2,
      CHR 0x41, CHR 0x24, CHR 0x35, CHR 0x03, CHR 0x00, CHR 0x00, CHR 0x00]"

definition example_gzip :: "bytes \<Rightarrow> go_error + reader" where
  "example_gzip body =
     (if body = [] then Inl io_EOF
      else if body = gzip_abc then Inr (Reader ''abc'' None)
      else if body = take 13 gzip_abc then Inr (Reader [] (Some (Error ''unexpected EOF'')))
      else Inl (Error ''gzip: invalid header''))"

text \<open>
  \<open>example_unicode\<close> stands in for the Unicode paths on the header values used below:
  lower-casing maps the two bytes of U+0130 to \<open>i\<close> and the ASCII capitals to their small
  letters, and no value has white space outside ASCII.
\<close>

fun lower_runes :: "string \<Rightarrow> string" where
  "lower_runes (c # d # s) =
     (if c = CHR 0xC4 \<and> d = CHR 0xB0 then CHR ''i'' # lower_runes s
      else (if 65 \<le> (of_char c :: nat) \<and> (of_char c :: nat) \<le> 90
            then char_of (of_char c + 32 :: nat) else c) # lower_runes (d # s))"
| "lower_runes [c] =
     [if 65 \<le> (of_char c :: nat) \<and> (of_char c :: nat) \<le> 90
      then char_of (of_char c + 32 :: nat) else c]"
| "lower_runes [] = []"

definition example_unicode :: unicode_strings where
  "example_unicode =
     \<lparr>Map_ToLower = lower_runes,
      TrimFunc_IsSpace = (\<lambda>s. rev (dropWhile isSpace (rev (dropWhile isSpace s))))\<rparr>"

definition gzip_heap :: heap where
  "gzip_heap =
     \<lparr>responses = (\<lambda>a. blank_response)
        (0 := \<lparr>Status = ''200'', Header = [''Content-Encoding'' \<mapsto> ['' X-GZip '']],
                Body = None, Request = None\<rparr>,
         1 := \<lparr>Status = ''200'', Header = [''Content-Encoding'' \<mapsto> [''identity'']],
                Body = None, Request = None\<rparr>,
         2 := \<lparr>Status = ''200'', Header = [''Content-Type'' \<mapsto> [''text/html'']],
                Body = None, Request = None\<rparr>,
         3 := \<lparr>Status = ''200'',
                Header = [''Content-Encoding'' \<mapsto> [[CHR ''G'', CHR ''Z'', CHR 0xC4, CHR 0xB0, CHR ''P'']]],
                Body = None, Request = None\<rparr>),
      requests = (\<lambda>a. blank_request)\<rparr>"






text \<open>
  \<open>write_url_and_body\<close> stands in for the rendering on the wire: the URL, a newline and
  the bytes read from the body. In \<open>spent_request\<close> the body of the \<^verbatim>\<open>http.Request\<close> has
  been read to its end already; \<open>rewound_request\<close> is the same request with the bytes of
  \<^verbatim>\<open>BodyBytes()\<close> in a reader that has not been read.
\<close>

definition write_url_and_body :: "http_Request \<Rightarrow> go_error + bytes" where
  "write_url_and_body hr =
     (case reqBody hr of
        None \<Rightarrow> Inr (URL hr @ [newline])
      | Some b \<Rightarrow>
          (case ioutil_ReadAll b of
             (data, None) \<Rightarrow> Inr (URL hr @ [newline] @ data)
           | (data, Some err) \<Rightarrow> Inl err))"

definition no_raw_dump ::
  "string \<Rightarrow> string \<Rightarrow> string \<Rightarrow> Header \<Rightarrow> reader \<Rightarrow> (string \<times> string) list \<Rightarrow> go_error + bytes" where
  "no_raw_dump method url path headers body unsafe = Inl (Error ''not a raw request'')"

definition spent_request :: generatedRequest where
  "spent_request =
     \<lparr>request = Some \<lparr>BodyBytes = Inr ''a=1'',
                       httpRequest = Some \<lparr>URL = ''/login'', reqBody = Some (Reader [] None),
                                           Response = None\<rparr>\<rparr>,
      rawRequest = None\<rparr>"

definition rewound_request :: generatedRequest where
  "rewound_request =
     \<lparr>request = Some \<lparr>BodyBytes = Inr ''a=1'',
                       httpRequest = Some \<lparr>URL = ''/login'', reqBody = Some (Reader ''a=1'' None),
                                           Response = None\<rparr>\<rparr>,
      rawRequest = None\<rparr>"

text \<open>
  In \<open>lost_request_heap\<close> three responses are linked in a row and the earliest has no
  request.
\<close>

definition lost_request_heap :: heap where
  "lost_request_heap =
     \<lparr>responses = (\<lambda>a. blank_response)
        (0 := \<lparr>Status = ''200'', Header = Map.empty, Body = None, Request = Some 0\<rparr>,
         1 := \<lparr>Status = ''302'', Header = Map.empty, Body = None, Request = Some 1\<rparr>,
         2 := \<lparr>Status = ''301'', Header = Map.empty, Body = None, Request = None\<rparr>),
      requests = (\<lambda>a. blank_request)
        (0 := \<lparr>URL = ''/c'', reqBody = None, Response = Some 1\<rparr>,
         1 := \<lparr>URL = ''/b'', reqBody = None, Response = Some 2\<rparr>)\<rparr>"

section \<open>Properties\<close>

subsection \<open>headersToString\<close>

lemma writeValues_append:
  "writeValues header n i vs (b @ c) = b @ writeValues header n i vs c"
  by (induction vs arbitrary: i c) auto

lemma writeValues_lines:
  "i + length vs = n \<Longrightarrow> vs \<noteq> [] \<Longrightarrow>
   writeValues header n i vs (header @ '': '') @ [newline] = header_lines header vs"
proof (induction vs arbitrary: i)
  case Nil
  then show ?case by simp
next
  case (Cons v rest)
  show ?case
  proof (cases rest)
    case Nil
    with Cons.prems show ?thesis by (simp add: header_lines_def)
  next
    case (Cons w ws)
    have step: "writeValues header n (Suc i) rest (header @ '': '') @ [newline]
        = header_lines header rest"
      using Cons.IH [of "Suc i"] Cons.prems \<open>rest = w # ws\<close> by simp
    have neq: "int i \<noteq> int n - 1"
      using Cons.prems \<open>rest = w # ws\<close> by auto
    have "writeValues header n i (v # rest) (header @ '': '') @ [newline]
        = writeValues header n (Suc i) rest
            ((header @ '': '' @ v @ [newline]) @ (header @ '': '')) @ [newline]"
      using neq by simp
    also have "\<dots> = (header @ '': '' @ v @ [newline])
        @ writeValues header n (Suc i) rest (header @ '': '') @ [newline]"
      by (simp only: writeValues_append append_assoc)
    also have "\<dots> = header_lines header (v # rest)"
      using step by (simp add: header_lines_def)
    finally show ?thesis .
  qed
qed

lemma writeHeader_block:
  "writeHeader header vs builder = builder @ header_block (header, vs)"
proof (cases vs)
  case Nil
  then show ?thesis by (simp add: writeHeader_def header_block_def)
next
  case (Cons v rest)
  have "writeHeader header vs builder
      = builder @ writeValues header (length vs) 0 vs (header @ '': '') @ [newline]"
    unfolding writeHeader_def
    by (simp only: writeValues_append append_assoc)
  also have "\<dots> = builder @ header_lines header vs"
    using writeValues_lines [of 0 vs "length vs" header] Cons by simp
  finally show ?thesis using Cons by (simp add: header_block_def)
qed

lemma writeHeaders_blocks:
  "writeHeaders entries builder = builder @ concat (map header_block entries)"
  by (induction entries arbitrary: builder) (auto simp: writeHeader_block)

lemma headersToString_blocks:
  "headersToString entries = concat (map header_block entries)"
  by (simp add: headersToString_def writeHeaders_blocks)

lemma range_of_single:
  assumes "range_of [k \<mapsto> vs] entries"
  shows "entries = [(k, vs)]"
proof -
  from assms have d: "distinct (map fst entries)" and m: "map_of entries = [k \<mapsto> vs]"
    by (simp_all add: range_of_def)
  have keys: "set (map fst entries) = {k}"
    using m by (metis dom_map_of_conv_image_fst dom_empty dom_fun_upd list.set_map option.simps(3))
  with d have "map fst entries = [k]"
    by (metis distinct_card card_1_singletonE length_0_conv length_Suc_conv
        list.set_intros(1) set_ConsD singletonD card.empty card_insert_if empty_iff
        finite.emptyI empty_set list.simps(15) One_nat_def)
  then obtain e where e: "entries = [e]" "fst e = k"
    by (cases entries) auto
  with m have "snd e = vs"
    by (cases e) (auto dest: fun_cong [of _ _ k])
  with e show ?thesis by (cases e) simp
qed

text \<open>
  C5. A header name with more than one value is written as one line \<open>Name: value\<close> per
  value, each closed by a newline, whatever stands before and after it in the map; the
  values are never joined into one line. The map that sends \<open>X-Foo\<close> to \<open>a\<close> and \<open>b\<close> is
  written as the two lines \<open>X-Foo: a\<close> and \<open>X-Foo: b\<close>, in every order of iteration.
\<close>

theorem headersToString_repeated_lines:
  "(1 < length vs \<longrightarrow>
      headersToString (before @ (name, vs) # after) =
        headersToString before
        @ concat (map (\<lambda>v. name @ '': '' @ v @ [newline]) vs)
        @ headersToString after)
   \<and> (range_of [''X-Foo'' \<mapsto> [''a'', ''b'']] entries \<longrightarrow>
      headersToString entries = ''X-Foo: a'' @ [newline] @ ''X-Foo: b'' @ [newline])"
proof (intro conjI impI)
  assume "1 < length vs"
  then have "header_block (name, vs) = concat (map (\<lambda>v. name @ '': '' @ v @ [newline]) vs)"
    by (auto simp: header_block_def header_lines_def)
  then show "headersToString (before @ (name, vs) # after) =
      headersToString before @ concat (map (\<lambda>v. name @ '': '' @ v @ [newline]) vs)
      @ headersToString after"
    by (simp add: headersToString_blocks)
next
  assume "range_of [''X-Foo'' \<mapsto> [''a'', ''b'']] entries"
  then have "entries = [(''X-Foo'', [''a'', ''b''])]"
    by (rule range_of_single)
  then show "headersToString entries = ''X-Foo: a'' @ [newline] @ ''X-Foo: b'' @ [newline]"
    by (simp add: headersToString_blocks header_block_def header_lines_def)
qed

theorem headersToString_repeated_lines_witness:
  "1 < length [''a'', ''b'']
   \<and> range_of [''X-Foo'' \<mapsto> [''a'', ''b'']] [(''X-Foo'', [''a'', ''b''])]
   \<and> headersToString ([(''Host'', [''x''])] @ (''X-Foo'', [''a'', ''b'']) # []) =
       headersToString [(''Host'', [''x''])]
       @ (''X-Foo: a'' @ [newline] @ ''X-Foo: b'' @ [newline]) @ headersToString []
   \<and> headersToString [(''X-Foo'', [''a'', ''b''])] =
       ''X-Foo: a'' @ [newline] @ ''X-Foo: b'' @ [newline]"
  using headersToString_repeated_lines
    [of "[''a'', ''b'']" "[(''Host'', [''x''])]" "''X-Foo''" "[]" "[(''X-Foo'', [''a'', ''b''])]"]
  by (simp add: range_of_def)

text \<open>
  C6, as the claim has it, fails: the map with the two names \<open>A\<close> and \<open>B\<close> may be visited
  in either order, and the two orders give different strings.
\<close>

theorem headersToString_order_counterexample:
  "range_of two_headers [(''A'', [''1'']), (''B'', [''2''])]
   \<and> range_of two_headers [(''B'', [''2'']), (''A'', [''1''])]
   \<and> headersToString [(''A'', [''1'']), (''B'', [''2''])]
       \<noteq> headersToString [(''B'', [''2'']), (''A'', [''1''])]"
  by (auto simp: range_of_def two_headers_def headersToString_blocks header_block_def
      header_lines_def)

text \<open>
  C6, amended. Whatever order the iteration takes, the result is the blocks of the entries
  in that order, one block for each name of the map, and in a block the values of the
  name stand in their stored order. Two runs over the same map give the same blocks, but
  not always in the same order.
\<close>

theorem headersToString_blocks_of_map:
  assumes "range_of headers entries" and "range_of headers entries'"
  shows "headersToString entries = concat (map header_block entries)
    \<and> set entries = {(name, vs). headers name = Some vs}
    \<and> distinct (map fst entries)
    \<and> mset (map header_block entries) = mset (map header_block entries')"
proof -
  have graph: "set es = {(name, vs). headers name = Some vs}" if "range_of headers es" for es
    using that by (auto simp: range_of_def)
  have "distinct entries" "distinct entries'"
    using assms by (auto simp: range_of_def distinct_map)
  moreover have "set entries = set entries'"
    using graph [OF assms(1)] graph [OF assms(2)] by simp
  ultimately have "mset entries = mset entries'"
    by (simp add: set_eq_iff_mset_eq_distinct)
  then have "mset (map header_block entries) = mset (map header_block entries')"
    by (metis mset_map)
  then show ?thesis
    using assms(1) graph [OF assms(1)]
    by (simp add: headersToString_blocks range_of_def)
qed

theorem headersToString_blocks_of_map_witness:
  "range_of two_headers [(''A'', [''1'']), (''B'', [''2''])]
   \<and> range_of two_headers [(''B'', [''2'']), (''A'', [''1''])]
   \<and> headersToString [(''A'', [''1'']), (''B'', [''2''])] =
       concat (map header_block [(''A'', [''1'']), (''B'', [''2''])])
   \<and> mset (map header_block [(''A'', [''1'']), (''B'', [''2''])]) =
       mset (map header_block [(''B'', [''2'']), (''A'', [''1''])])"
proof -
  have a: "range_of two_headers [(''A'', [''1'']), (''B'', [''2''])]"
    by (auto simp: range_of_def two_headers_def)
  have b: "range_of two_headers [(''B'', [''2'']), (''A'', [''1''])]"
    by (auto simp: range_of_def two_headers_def)
  show ?thesis
    using a b headersToString_blocks_of_map [OF a b] by simp
qed

subsection \<open>dumpResponseWithRedirectChain\<close>

declare writeBackwards.simps [simp del]

lemma writeBackwards_take:
  "n \<le> length rs \<Longrightarrow> writeBackwards rs (int n - 1) buf = buf @ concat (rev (take n rs))"
proof (induction n arbitrary: buf)
  case 0
  then show ?case by (subst writeBackwards.simps) simp
next
  case (Suc n)
  have "writeBackwards rs (int (Suc n) - 1) buf = writeBackwards rs (int n - 1) (buf @ rs ! n)"
    by (subst writeBackwards.simps) simp
  also have "\<dots> = (buf @ rs ! n) @ concat (rev (take n rs))"
    using Suc by simp
  also have "\<dots> = buf @ concat (rev (take (Suc n) rs))"
    using Suc.prems by (simp add: take_Suc_conv_app_nth)
  finally show ?case .
qed

lemma writeBackwards_rev:
  "writeBackwards rs (int (length rs) - 1) [] = concat (rev rs)"
  using writeBackwards_take [of "length rs" rs "[]"] by simp

lemma walk_step:
  "DumpResponse (responses h a) = Inr respData \<Longrightarrow> Request (responses h a) = Some q \<Longrightarrow>
   walk DumpResponse h (Some a) rs
     = walk DumpResponse h (previous h a) (rs @ [hop_record DumpResponse h a])"
  by (subst walk.simps)
     (simp add: previous_def hop_record_def rendered_def body_read_def UnsafeToString_def Let_def)

lemma walk_chain:
  "chain h p hops p' \<Longrightarrow> \<forall>b\<in>set hops. renders DumpResponse h b \<Longrightarrow>
   walk DumpResponse h p rs = walk DumpResponse h p' (rs @ map (hop_record DumpResponse h) hops)"
proof (induction hops arbitrary: p rs)
  case Nil
  then show ?case by simp
next
  case (Cons a hops)
  from Cons.prems obtain q respData where
    "p = Some a" "Request (responses h a) = Some q" "DumpResponse (responses h a) = Inr respData"
    "chain h (previous h a) hops p'"
    by (auto simp: renders_def split: sum.splits)
  then show ?case
    using Cons.IH [of "previous h a" "rs @ [hop_record DumpResponse h a]"] Cons.prems
    by (simp add: walk_step)
qed

lemma walk_nil: "walk DumpResponse h None rs = Some (Returned rs)"
  by (subst walk.simps) simp

lemma walk_render_fails:
  "\<not> renders DumpResponse h x \<Longrightarrow> walk DumpResponse h (Some x) rs = Some (Returned rs)"
  by (subst walk.simps) (simp add: renders_def split: sum.splits)

lemma walk_nil_request:
  "renders DumpResponse h x \<Longrightarrow> Request (responses h x) = None \<Longrightarrow>
   walk DumpResponse h (Some x) rs = Some Panicked"
  by (subst walk.simps) (simp add: renders_def split: sum.splits)

lemma dump_unfold:
  "DumpResponse (responses h a) = Inr respData \<Longrightarrow>
   dumpResponseWithRedirectChain DumpResponse h (Some a) body =
     (case walk DumpResponse h (previous h a) [respData @ body] of
        None \<Rightarrow> None
      | Some Panicked \<Rightarrow> Some Panicked
      | Some (Returned redirects) \<Rightarrow> Some (Returned (Inr (concat (rev redirects)))))"
  by (simp add: dumpResponseWithRedirectChain_def previous_def UnsafeToString_def
      writeBackwards_rev split: option.splits outcome.splits)

lemma walk_terminates:
  assumes "finite S" "\<forall>b\<in>S. \<forall>c. previous h b = Some c \<longrightarrow> c \<in> S"
    "acyclic (backlinks h \<inter> S \<times> S)"
  shows "b \<in> S \<Longrightarrow> \<exists>out. walk DumpResponse h (Some b) rs = Some out"
proof -
  have "finite (backlinks h \<inter> S \<times> S)" using assms(1) by simp
  then have "wf (backlinks h \<inter> S \<times> S)" using assms(3) by (rule finite_acyclic_wf)
  then show "b \<in> S \<Longrightarrow> \<exists>out. walk DumpResponse h (Some b) rs = Some out"
  proof (induction b arbitrary: rs rule: wf_induct_rule)
    case (less b)
    show ?case
    proof (cases "renders DumpResponse h b")
      case False
      then show ?thesis by (simp add: walk_render_fails)
    next
      case True
      show ?thesis
      proof (cases "Request (responses h b)")
        case None
        with True show ?thesis by (simp add: walk_nil_request)
      next
        case (Some q)
        from True obtain respData where d: "DumpResponse (responses h b) = Inr respData"
          by (auto simp: renders_def split: sum.splits)
        show ?thesis
        proof (cases "previous h b")
          case None
          with d Some show ?thesis by (simp add: walk_step walk_nil)
        next
          case (Some c)
          with less.prems assms(2) have "c \<in> S" by blast
          moreover have "(c, b) \<in> backlinks h \<inter> S \<times> S"
            using Some \<open>c \<in> S\<close> less.prems by (simp add: backlinks_def)
          ultimately show ?thesis
            using less.IH [of c] d \<open>Request (responses h b) = Some q\<close> Some
            by (simp add: walk_step)
        qed
      qed
    qed
  qed
qed


lemma walk_returns:
  assumes "finite S" "\<forall>b\<in>S. \<forall>c. previous h b = Some c \<longrightarrow> c \<in> S"
    "acyclic (backlinks h \<inter> S \<times> S)"
    "\<forall>b\<in>S. renders DumpResponse h b \<longrightarrow> Request (responses h b) \<noteq> None"
  shows "b \<in> S \<Longrightarrow> \<exists>rs'. walk DumpResponse h (Some b) rs = Some (Returned rs')"
proof -
  have "finite (backlinks h \<inter> S \<times> S)" using assms(1) by simp
  then have "wf (backlinks h \<inter> S \<times> S)" using assms(3) by (rule finite_acyclic_wf)
  then show "b \<in> S \<Longrightarrow> \<exists>rs'. walk DumpResponse h (Some b) rs = Some (Returned rs')"
  proof (induction b arbitrary: rs rule: wf_induct_rule)
    case (less b)
    show ?case
    proof (cases "renders DumpResponse h b")
      case False
      then show ?thesis by (simp add: walk_render_fails)
    next
      case True
      with less.prems assms(4) obtain q where q: "Request (responses h b) = Some q"
        by auto
      from True obtain respData where d: "DumpResponse (responses h b) = Inr respData"
        by (auto simp: renders_def split: sum.splits)
      show ?thesis
      proof (cases "previous h b")
        case None
        with d q show ?thesis by (simp add: walk_step walk_nil)
      next
        case (Some c)
        with less.prems assms(2) have "c \<in> S" by blast
        moreover have "(c, b) \<in> backlinks h \<inter> S \<times> S"
          using Some \<open>c \<in> S\<close> less.prems by (simp add: backlinks_def)
        ultimately show ?thesis
          using less.IH [of c] d q Some by (simp add: walk_step)
      qed
    qed
  qed
qed

lemma earlier_hops:
  assumes "\<forall>b\<in>S. \<forall>c. previous h b = Some c \<longrightarrow> c \<in> S"
    and "acyclic (backlinks h \<inter> S \<times> S)" and "a \<in> S"
  defines "T \<equiv> {b. (b, a) \<in> (backlinks h \<inter> S \<times> S)\<^sup>+}"
  shows "T \<subseteq> S - {a}" and "\<forall>b\<in>T. \<forall>c. previous h b = Some c \<longrightarrow> c \<in> T"
    and "acyclic (backlinks h \<inter> T \<times> T)"
    and "\<forall>c. previous h a = Some c \<longrightarrow> c \<in> T"
proof -
  let ?r = "backlinks h \<inter> S \<times> S"
  have dom: "b \<in> S" if "(b, c) \<in> ?r\<^sup>+" for b c
    using that by (induction rule: trancl_induct) auto
  show "T \<subseteq> S - {a}"
    using assms(2) dom by (auto simp: T_def acyclic_def)
  show "\<forall>b\<in>T. \<forall>c. previous h b = Some c \<longrightarrow> c \<in> T"
  proof (intro ballI allI impI)
    fix b c assume b: "b \<in> T" and c: "previous h b = Some c"
    from b have "b \<in> S" using dom by (auto simp: T_def)
    with c assms(1) have "(c, b) \<in> ?r" by (auto simp: backlinks_def)
    with b show "c \<in> T" by (auto simp: T_def intro: trancl_into_trancl2)
  qed
  show "acyclic (backlinks h \<inter> T \<times> T)"
    using \<open>T \<subseteq> S - {a}\<close> by (intro acyclic_subset [OF assms(2)]) auto
  show "\<forall>c. previous h a = Some c \<longrightarrow> c \<in> T"
    using assms(1,3) by (auto simp: T_def backlinks_def)
qed

lemma walk_end:
  "ends_walk DumpResponse h p \<Longrightarrow> walk DumpResponse h p rs = Some (Returned rs)"
  by (cases p) (simp_all add: ends_walk_def walk_nil walk_render_fails)

lemma dump_chain:
  assumes "renders DumpResponse h a" "chain h (previous h a) hops p'"
    "\<forall>b\<in>set hops. renders DumpResponse h b" "ends_walk DumpResponse h p'"
  shows "dumpResponseWithRedirectChain DumpResponse h (Some a) body =
     Some (Returned (Inr (concat (map (hop_record DumpResponse h) (rev hops))
                          @ rendered DumpResponse h a @ body)))"
proof -
  from assms(1) obtain respData where d: "DumpResponse (responses h a) = Inr respData"
    by (auto simp: renders_def split: sum.splits)
  have "walk DumpResponse h (previous h a) [respData @ body] =
      Some (Returned ([respData @ body] @ map (hop_record DumpResponse h) hops))"
    using walk_chain [OF assms(2,3), of "[respData @ body]"] assms(4)
    by (simp add: walk_end)
  with d show ?thesis
    by (simp add: dump_unfold rendered_def rev_map)
qed

lemma dump_error_iff:
  "dumpResponseWithRedirectChain DumpResponse h (Some a) body = Some (Returned (Inl err))
     \<longleftrightarrow> DumpResponse (responses h a) = Inl err"
proof (cases "DumpResponse (responses h a)")
  case (Inl e)
  then show ?thesis by (simp add: dumpResponseWithRedirectChain_def)
next
  case (Inr respData)
  then show ?thesis
    by (simp add: dump_unfold split: option.splits outcome.splits)
qed

lemmas heap_eval = previous_def renders_def render_status_def ends_walk_def
  hop_record_def rendered_def body_read_def blank_response_def blank_request_def

text \<open>
  C1. Let the links from the final response \<open>a\<close> lead back through the responses \<open>hops\<close>
  (the nearest first) to the first request, and let every response of the chain render.
  Then the dump is the records of the hops from the earliest to the latest, followed by
  the record of the final response, with nothing between them. The chain has
  \<open>1 + length hops\<close> hops, any number from one on.
\<close>

theorem dump_chronological:
  assumes "chain h (previous h a) hops None"
    and "\<forall>b\<in>set (a # hops). renders DumpResponse h b"
  shows "dumpResponseWithRedirectChain DumpResponse h (Some a) body =
     Some (Returned (Inr (concat (map (hop_record DumpResponse h) (rev hops))
                          @ rendered DumpResponse h a @ body)))"
proof -
  from assms(2) obtain respData where d: "DumpResponse (responses h a) = Inr respData"
    by (auto simp: renders_def split: sum.splits)
  have "walk DumpResponse h (previous h a) [respData @ body] =
      Some (Returned ([respData @ body] @ map (hop_record DumpResponse h) hops))"
    using walk_chain [OF assms(1), of DumpResponse "[respData @ body]"] assms(2)
    by (simp add: walk_nil)
  with d show ?thesis
    by (simp add: dump_unfold rendered_def rev_map)
qed

theorem dump_chronological_witness:
  "chain redirect_heap (previous redirect_heap 0) [1, 2] None
   \<and> renders render_status redirect_heap 0
   \<and> renders render_status redirect_heap 1
   \<and> renders render_status redirect_heap 2
   \<and> dumpResponseWithRedirectChain render_status redirect_heap (Some 0) ''done'' =
       Some (Returned (Inr (''301'' @ [newline] @ ''302'' @ [newline] @ ''moved''
                            @ ''200'' @ [newline] @ ''done'')))"
  using dump_chronological [of redirect_heap 0 "[1, 2]" render_status "''done''"]
  by (simp add: redirect_heap_def previous_def renders_def render_status_def
      hop_record_def rendered_def body_read_def)

text \<open>
  C2, as the claim has it, fails in its last part: a body that delivers the bytes \<open>mov\<close>
  and then fails is not left out of the dump. \<^verbatim>\<open>ioutil.ReadAll\<close> returns the bytes read
  before the failure together with the error, line 50 drops the error only, and line 54
  writes the bytes.
\<close>

theorem dump_read_failure_counterexample:
  "Body (responses broken_heap 1) = Some (Reader ''mov'' (Some (Error ''connection reset'')))
   \<and> ioutil_ReadAll (Reader ''mov'' (Some (Error ''connection reset''))) =
       (''mov'', Some (Error ''connection reset''))
   \<and> dumpResponseWithRedirectChain render_status broken_heap (Some 0) ''done'' =
       Some (Returned (Inr (''302'' @ [newline] @ ''mov'' @ ''200'' @ [newline] @ ''done'')))
   \<and> dumpResponseWithRedirectChain render_status broken_heap (Some 0) ''done'' \<noteq>
       Some (Returned (Inr (''302'' @ [newline] @ ''200'' @ [newline] @ ''done'')))"
proof -
  have "dumpResponseWithRedirectChain render_status broken_heap (Some 0) ''done'' =
       Some (Returned (Inr (''302'' @ [newline] @ ''mov'' @ ''200'' @ [newline] @ ''done'')))"
    using dump_chain [of render_status broken_heap 0 "[1]" "Some 2" "''done''"]
    by (simp add: broken_heap_def heap_eval)
  then show ?thesis by (simp add: broken_heap_def)
qed

text \<open>
  C2, amended. The call returns an error exactly when the final response does not
  render, and the error is the renderer's. When the final response renders and the walk
  back stops, at the end of the links or at an earlier response that does not render,
  the records gathered so far are emitted, the earliest first, with a nil error. A
  failure while reading the body of an earlier hop \<open>b\<close> does not abort the dump: the
  record of \<open>b\<close> is its rendered head followed by the bytes \<open>data\<close> that were read before
  the failure (none, when the read fails at once).
\<close>

theorem dump_error_policy:
  "(dumpResponseWithRedirectChain DumpResponse h (Some a) body = Some (Returned (Inl err))
      \<longleftrightarrow> DumpResponse (responses h a) = Inl err)
   \<and> (renders DumpResponse h a \<and> chain h (previous h a) hops p'
        \<and> (\<forall>c\<in>set hops. renders DumpResponse h c) \<and> ends_walk DumpResponse h p' \<longrightarrow>
      dumpResponseWithRedirectChain DumpResponse h (Some a) body =
        Some (Returned (Inr (concat (map (hop_record DumpResponse h) (rev hops))
                             @ rendered DumpResponse h a @ body))))
   \<and> (renders DumpResponse h a \<and> chain h (previous h a) (later @ b # earlier) p'
        \<and> (\<forall>c\<in>set (later @ b # earlier). renders DumpResponse h c)
        \<and> ends_walk DumpResponse h p'
        \<and> Body (responses h b) = Some (Reader data (Some e)) \<longrightarrow>
      dumpResponseWithRedirectChain DumpResponse h (Some a) body =
        Some (Returned (Inr (concat (map (hop_record DumpResponse h) (rev earlier))
                             @ (rendered DumpResponse h b @ data)
                             @ concat (map (hop_record DumpResponse h) (rev later))
                             @ rendered DumpResponse h a @ body))))"
proof (intro conjI impI)
  show "dumpResponseWithRedirectChain DumpResponse h (Some a) body = Some (Returned (Inl err))
      \<longleftrightarrow> DumpResponse (responses h a) = Inl err"
    by (rule dump_error_iff)
next
  assume *: "renders DumpResponse h a \<and> chain h (previous h a) hops p'
        \<and> (\<forall>c\<in>set hops. renders DumpResponse h c) \<and> ends_walk DumpResponse h p'"
  show "dumpResponseWithRedirectChain DumpResponse h (Some a) body =
        Some (Returned (Inr (concat (map (hop_record DumpResponse h) (rev hops))
                             @ rendered DumpResponse h a @ body)))"
    by (rule dump_chain [of _ _ _ hops p']) (use * in simp_all)
next
  assume *: "renders DumpResponse h a \<and> chain h (previous h a) (later @ b # earlier) p'
        \<and> (\<forall>c\<in>set (later @ b # earlier). renders DumpResponse h c)
        \<and> ends_walk DumpResponse h p'
        \<and> Body (responses h b) = Some (Reader data (Some e))"
  then have "hop_record DumpResponse h b = rendered DumpResponse h b @ data"
    by (simp add: hop_record_def body_read_def)
  moreover from * have "dumpResponseWithRedirectChain DumpResponse h (Some a) body =
     Some (Returned (Inr (concat (map (hop_record DumpResponse h) (rev (later @ b # earlier)))
                          @ rendered DumpResponse h a @ body)))"
    by (intro dump_chain [of _ _ _ _ p']) simp_all
  ultimately show "dumpResponseWithRedirectChain DumpResponse h (Some a) body =
        Some (Returned (Inr (concat (map (hop_record DumpResponse h) (rev earlier))
                             @ (rendered DumpResponse h b @ data)
                             @ concat (map (hop_record DumpResponse h) (rev later))
                             @ rendered DumpResponse h a @ body)))"
    by simp
qed

theorem dump_error_policy_witness:
  "dumpResponseWithRedirectChain render_status broken_heap (Some 2) ''done'' =
     Some (Returned (Inl (Error ''malformed response'')))
   \<and> renders render_status broken_heap 0
   \<and> chain broken_heap (previous broken_heap 0) [1] (Some 2)
   \<and> renders render_status broken_heap 1
   \<and> ends_walk render_status broken_heap (Some 2)
   \<and> Body (responses broken_heap 1) = Some (Reader ''mov'' (Some (Error ''connection reset'')))
   \<and> dumpResponseWithRedirectChain render_status broken_heap (Some 0) ''done'' =
       Some (Returned (Inr (''302'' @ [newline] @ ''mov'' @ ''200'' @ [newline] @ ''done'')))"
  using dump_error_policy [of render_status broken_heap 2 "''done''" "Error ''malformed response''"
      "[]" "Some 2" "[]" 2 "[]" "[]" io_EOF]
    dump_error_policy [of render_status broken_heap 0 "''done''" io_EOF
      "[1]" "Some 2" "[]" 1 "[]" "''mov''" "Error ''connection reset''"]
  by (simp add: broken_heap_def heap_eval)

text \<open>
  C3. The claim asks that a response before the final one whose \<^verbatim>\<open>Request\<close> is nil end the
  chain. Line 39 tests \<^verbatim>\<open>resp.Request != nil\<close> for the final response; line 57 reads
  \<^verbatim>\<open>redirectResp.Request.Response\<close> with no such test. On the store below, where the
  response before the final one has no request, the call panics and returns nothing.
\<close>

theorem dump_nil_request_panics:
  "previous nil_request_heap 0 = Some 1
   \<and> renders render_status nil_request_heap 0
   \<and> renders render_status nil_request_heap 1
   \<and> Request (responses nil_request_heap 1) = None
   \<and> dumpResponseWithRedirectChain render_status nil_request_heap (Some 0) ''done'' =
       Some Panicked"
proof -
  have w: "walk render_status nil_request_heap (Some 1) rs = Some Panicked" for rs
    by (rule walk_nil_request) (simp_all add: nil_request_heap_def heap_eval)
  have d: "render_status (responses nil_request_heap 0) = Inr (''200'' @ [newline])"
    by (simp add: nil_request_heap_def heap_eval)
  have p: "previous nil_request_heap 0 = Some 1"
    by (simp add: nil_request_heap_def heap_eval)
  have "dumpResponseWithRedirectChain render_status nil_request_heap (Some 0) ''done'' =
       Some Panicked"
    using dump_unfold [of render_status nil_request_heap 0 "''200'' @ [newline]" "''done''"]
      d w p by simp
  then show ?thesis
    using p by (simp add: nil_request_heap_def heap_eval)
qed

text \<open>
  C4. The claim asks that the call return on every finite chain of links without a
  circle. In the store below the chain has three responses and no circle, every response
  renders, and the earliest response has no request: the walk reaches it, line 57 reads
  through its nil request, and the call panics instead of returning. It is the slip of
  C3: line 39 has the test that line 57 lacks.
\<close>

theorem dump_acyclic_chain_panics:
  "finite {0, 1, 2 :: nat}
   \<and> previous lost_request_heap 0 = Some 1
   \<and> previous lost_request_heap 1 = Some 2
   \<and> previous lost_request_heap 2 = None
   \<and> acyclic (backlinks lost_request_heap \<inter> {0, 1, 2} \<times> {0, 1, 2})
   \<and> renders render_status lost_request_heap 0
   \<and> renders render_status lost_request_heap 1
   \<and> renders render_status lost_request_heap 2
   \<and> Request (responses lost_request_heap 2) = None
   \<and> dumpResponseWithRedirectChain render_status lost_request_heap (Some 0) ''done'' =
       Some Panicked"
proof -
  have p: "previous lost_request_heap 0 = Some 1" "previous lost_request_heap 1 = Some 2"
    "previous lost_request_heap 2 = None"
    by (simp_all add: lost_request_heap_def previous_def)
  have r: "renders render_status lost_request_heap 0" "renders render_status lost_request_heap 1"
    "renders render_status lost_request_heap 2"
    by (simp_all add: lost_request_heap_def renders_def render_status_def)
  have q: "Request (responses lost_request_heap 1) = Some 1"
    "Request (responses lost_request_heap 2) = None"
    by (simp_all add: lost_request_heap_def)
  have "backlinks lost_request_heap \<inter> {0, 1, 2} \<times> {0, 1, 2} \<subseteq> less_than\<inverse>"
    using p by (auto simp: backlinks_def)
  moreover have "acyclic (less_than\<inverse>)"
    by (simp add: acyclic_converse wf_acyclic)
  ultimately have ac: "acyclic (backlinks lost_request_heap \<inter> {0, 1, 2} \<times> {0, 1, 2})"
    by (rule acyclic_subset [rotated])
  have d0: "render_status (responses lost_request_heap 0) = Inr (''200'' @ [newline])"
    and d1: "render_status (responses lost_request_heap 1) = Inr (''302'' @ [newline])"
    by (simp_all add: lost_request_heap_def render_status_def)
  have "walk render_status lost_request_heap (Some 2) rs = Some Panicked" for rs
    using r(3) q(2) by (rule walk_nil_request)
  then have "walk render_status lost_request_heap (Some 1) rs = Some Panicked" for rs
    using walk_step [of render_status lost_request_heap 1 "''302'' @ [newline]" 1] d1 q(1) p(2)
    by simp
  then have "dumpResponseWithRedirectChain render_status lost_request_heap (Some 0) ''done'' =
       Some Panicked"
    using dump_unfold [of render_status lost_request_heap 0 "''200'' @ [newline]" "''done''"]
      d0 p(1) by simp
  then show ?thesis
    using p r q ac by simp
qed

text \<open>
  What does hold on such a chain. Let \<open>S\<close> be a finite set of responses that holds the
  final response \<open>a\<close> and, with each response, the one its links lead back to, and let no
  link path within \<open>S\<close> run in a circle. Then the call ends, with no bound on the number
  of hops: it has an outcome, and the outcome is a return whenever every earlier
  response that renders has its request.
\<close>

lemma dump_has_outcome:
  assumes "finite S" and "a \<in> S"
    and "\<forall>b\<in>S. \<forall>c. previous h b = Some c \<longrightarrow> c \<in> S"
    and "acyclic (backlinks h \<inter> S \<times> S)"
  shows "(\<exists>out. dumpResponseWithRedirectChain DumpResponse h (Some a) body = Some out)
    \<and> ((\<forall>b\<in>S. b \<noteq> a \<and> renders DumpResponse h b \<longrightarrow> Request (responses h b) \<noteq> None) \<longrightarrow>
        (\<exists>res. dumpResponseWithRedirectChain DumpResponse h (Some a) body = Some (Returned res)))"
proof (cases "DumpResponse (responses h a)")
  case (Inl err)
  then show ?thesis by (simp add: dumpResponseWithRedirectChain_def)
next
  case (Inr respData)
  have ends: "\<exists>out. walk DumpResponse h (previous h a) [respData @ body] = Some out"
  proof (cases "previous h a")
    case None
    then show ?thesis by (simp add: walk_nil)
  next
    case (Some c)
    with assms(2,3) have "c \<in> S" by blast
    with Some show ?thesis
      using walk_terminates [OF assms(1,3,4)] by simp
  qed
  have returns: "\<exists>rs'. walk DumpResponse h (previous h a) [respData @ body] = Some (Returned rs')"
    if links: "\<forall>b\<in>S. b \<noteq> a \<and> renders DumpResponse h b \<longrightarrow> Request (responses h b) \<noteq> None"
  proof (cases "previous h a")
    case None
    then show ?thesis by (simp add: walk_nil)
  next
    case (Some c)
    define T where "T = {b. (b, a) \<in> (backlinks h \<inter> S \<times> S)\<^sup>+}"
    note T = earlier_hops [OF assms(3,4,2), folded T_def]
    have "finite T" using T(1) assms(1) by (meson finite_Diff finite_subset)
    moreover have "\<forall>b\<in>T. renders DumpResponse h b \<longrightarrow> Request (responses h b) \<noteq> None"
      using T(1) links by blast
    moreover have "c \<in> T" using T(4) Some by simp
    ultimately show ?thesis
      using walk_returns [OF _ T(2,3), of DumpResponse c] Some by simp
  qed
  from Inr ends returns show ?thesis
    by (auto simp: dump_unfold split: outcome.splits)
qed

text \<open>
  On links that run in a circle the walk has no outcome.
\<close>

lemma walk_loop_never_returns:
  "walk render_status loop_heap (Some 0) rs = None"
proof -
  have d: "render_status (responses loop_heap 0) = Inr (''302'' @ [newline])"
    and q: "Request (responses loop_heap 0) = Some 0"
    and r: "Response (requests loop_heap 0) = Some 0"
    by (simp_all add: loop_heap_def render_status_def)
  have never: "D = render_status \<and> h = loop_heap \<and> p = Some 0 \<longrightarrow> False"
    if "walk D h p rs = Some out" for D h p rs out
  proof (rule walk.raw_induct
          [where P = "\<lambda>D h p rs out. D = render_status \<and> h = loop_heap \<and> p = Some 0 \<longrightarrow> False",
           OF _ that], intro impI, elim conjE)
    fix walk' :: "(http_Response \<Rightarrow> go_error + bytes) \<Rightarrow> heap \<Rightarrow> addr option \<Rightarrow> string list
     \<Rightarrow> string list outcome option"
    fix D :: "http_Response \<Rightarrow> go_error + bytes" and h :: heap and p :: "addr option"
      and rs :: "string list" and out :: "string list outcome"
    assume IH: "\<And>D h p rs y. walk' D h p rs = Some y \<Longrightarrow>
        D = render_status \<and> h = loop_heap \<and> p = Some 0 \<longrightarrow> False"
    assume eqs: "D = render_status" "h = loop_heap" "p = Some 0"
    assume "(case p of
        None \<Rightarrow> Some (Returned rs)
      | Some a \<Rightarrow>
          (case D (responses h a) of
             Inl err \<Rightarrow> Some (Returned rs)
           | Inr respData \<Rightarrow>
               (let body = (case Body (responses h a) of
                              None \<Rightarrow> []
                            | Some b \<Rightarrow> fst (ioutil_ReadAll b));
                    redirectChain = [] @ UnsafeToString respData;
                    redirectChain = (if length body > 0
                                     then redirectChain @ UnsafeToString body
                                     else redirectChain);
                    redirects = rs @ [redirectChain]
                in case Request (responses h a) of
                     None \<Rightarrow> Some Panicked
                   | Some q \<Rightarrow> walk' D h (Response (requests h q)) redirects))) = Some out"
    then obtain rs' where "walk' render_status loop_heap (Some 0) rs' = Some out"
      using eqs by (simp add: d q r Let_def)
    with IH show False by blast
  qed
  show ?thesis
  proof (cases "walk render_status loop_heap (Some 0) rs")
    case None
    then show ?thesis .
  next
    case (Some out)
    from never [OF Some] show ?thesis by simp
  qed
qed

subsection \<open>handleDecompression\<close>

lemma handleDecompression_gzip:
  "strings_Contains (encodingHeader_of U h a) ''gzip'' \<Longrightarrow>
   handleDecompression U gzip_NewReader h (Some a) bodyOrig =
     (case gzip_NewReader bodyOrig of
        Inl err \<Rightarrow> (bodyOrig, Some err)
      | Inr gzipreader \<Rightarrow>
          (case ioutil_ReadAll gzipreader of
             (bodyDec, Some err) \<Rightarrow> (bodyOrig, Some err)
           | (bodyDec, None) \<Rightarrow> (bodyDec, None)))"
  by (simp add: handleDecompression_def encodingHeader_of_def)

lemma handleDecompression_other:
  "\<not> strings_Contains (encodingHeader_of U h a) ''gzip'' \<Longrightarrow>
   handleDecompression U gzip_NewReader h (Some a) bodyOrig = (bodyOrig, None)"
  by (simp add: handleDecompression_def encodingHeader_of_def)

lemma identity_is_ascii:
  "strings_TrimSpace U (strings_ToLower U ''identity'') = ''identity''"
  by (simp add: strings_TrimSpace_def strings_ToLower_def isASCII_def isSpace_def)

lemma absent_is_ascii:
  "strings_TrimSpace U (strings_ToLower U []) = []"
  by (simp add: strings_TrimSpace_def strings_ToLower_def isASCII_def)

lemma identity_not_gzip:
  "\<not> strings_Contains ''identity'' ''gzip''" "\<not> strings_Contains [] ''gzip''"
  by (simp_all add: strings_Contains_def sublist_code)

text \<open>
  C7. When the \<open>Content-Encoding\<close> header of the response, in lower case and trimmed,
  contains \<open>gzip\<close> and the body is the gzip compression of \<open>x\<close>, the result is \<open>x\<close> with a
  nil error, for every \<open>x\<close>; and with such a header the result is \<open>x\<close> with a nil error
  for no other body. When the header is \<open>identity\<close> or absent, the result is the body as
  it came, with a nil error. Both hold whatever the Unicode paths of the string
  functions and the decoder are.
\<close>

theorem handleDecompression_roundtrip:
  "(strings_Contains (encodingHeader_of U h a) ''gzip'' \<longrightarrow>
      (handleDecompression U gzip_NewReader h (Some a) body = (x, None))
        = gunzips_to gzip_NewReader body x)
   \<and> (Header_Get (Header (responses h a)) ''Content-Encoding'' = ''identity''
        \<or> Header (responses h a) ''Content-Encoding'' = None \<longrightarrow>
      handleDecompression U gzip_NewReader h (Some a) body = (body, None))"
proof (intro conjI impI)
  assume "strings_Contains (encodingHeader_of U h a) ''gzip''"
  then show "(handleDecompression U gzip_NewReader h (Some a) body = (x, None))
      = gunzips_to gzip_NewReader body x"
    by (auto simp: handleDecompression_gzip gunzips_to_def
        split: sum.splits prod.splits option.splits)
next
  assume "Header_Get (Header (responses h a)) ''Content-Encoding'' = ''identity''
        \<or> Header (responses h a) ''Content-Encoding'' = None"
  then have "Header_Get (Header (responses h a)) ''Content-Encoding'' = ''identity''
        \<or> Header_Get (Header (responses h a)) ''Content-Encoding'' = []"
    by (auto simp: Header_Get_def)
  then have "encodingHeader_of U h a = ''identity'' \<or> encodingHeader_of U h a = []"
    unfolding encodingHeader_of_def using identity_is_ascii absent_is_ascii by auto
  then have "\<not> strings_Contains (encodingHeader_of U h a) ''gzip''"
    using identity_not_gzip by auto
  then show "handleDecompression U gzip_NewReader h (Some a) body = (body, None)"
    by (rule handleDecompression_other)
qed

theorem handleDecompression_roundtrip_witness:
  "strings_Contains (encodingHeader_of example_unicode gzip_heap 0) ''gzip''
   \<and> gunzips_to example_gzip gzip_abc ''abc''
   \<and> handleDecompression example_unicode example_gzip gzip_heap (Some 0) gzip_abc = (''abc'', None)
   \<and> encodingHeader_of example_unicode gzip_heap 3 = ''gzip''
   \<and> handleDecompression example_unicode example_gzip gzip_heap (Some 3) gzip_abc = (''abc'', None)
   \<and> Header_Get (Header (responses gzip_heap 1)) ''Content-Encoding'' = ''identity''
   \<and> handleDecompression example_unicode example_gzip gzip_heap (Some 1) gzip_abc =
       (gzip_abc, None)
   \<and> Header (responses gzip_heap 2) ''Content-Encoding'' = None
   \<and> handleDecompression example_unicode example_gzip gzip_heap (Some 2) gzip_abc =
       (gzip_abc, None)"
proof -
  have a: "strings_Contains (encodingHeader_of example_unicode gzip_heap 0) ''gzip''"
    by code_simp
  have e: "encodingHeader_of example_unicode gzip_heap 3 = ''gzip''"
    by code_simp
  have e': "strings_Contains (encodingHeader_of example_unicode gzip_heap 3) ''gzip''"
    unfolding e by (simp add: strings_Contains_def)
  have b: "gunzips_to example_gzip gzip_abc ''abc''"
    by (simp add: gunzips_to_def example_gzip_def gzip_abc_def)
  have c: "Header_Get (Header (responses gzip_heap 1)) ''Content-Encoding'' = ''identity''"
    by (simp add: gzip_heap_def Header_Get_def)
  have d: "Header (responses gzip_heap 2) ''Content-Encoding'' = None"
    by (simp add: gzip_heap_def)
  show ?thesis
    using a b c d e e'
      handleDecompression_roundtrip [of example_unicode gzip_heap 0 example_gzip gzip_abc "''abc''"]
      handleDecompression_roundtrip [of example_unicode gzip_heap 3 example_gzip gzip_abc "''abc''"]
      handleDecompression_roundtrip [of example_unicode gzip_heap 1 example_gzip gzip_abc "''abc''"]
      handleDecompression_roundtrip [of example_unicode gzip_heap 2 example_gzip gzip_abc "''abc''"]
    by simp
qed

text \<open>
  C8. When the header contains \<open>gzip\<close> and the decoder rejects the body, or accepts it and
  fails while reading, the result is the original body together with that error.
\<close>

theorem handleDecompression_fallback:
  assumes "strings_Contains (encodingHeader_of U h a) ''gzip''"
    and "gzip_NewReader bodyOrig = Inl err
         \<or> (\<exists>gzipreader. gzip_NewReader bodyOrig = Inr gzipreader
               \<and> snd (ioutil_ReadAll gzipreader) = Some err)"
  shows "handleDecompression U gzip_NewReader h (Some a) bodyOrig = (bodyOrig, Some err)"
  using assms(2)
  by (auto simp: handleDecompression_gzip [OF assms(1)] split: prod.splits option.splits)

theorem handleDecompression_fallback_witness:
  "strings_Contains (encodingHeader_of example_unicode gzip_heap 3) ''gzip''
   \<and> example_gzip ''<html></html>'' = Inl (Error ''gzip: invalid header'')
   \<and> handleDecompression example_unicode example_gzip gzip_heap (Some 3) ''<html></html>'' =
       (''<html></html>'', Some (Error ''gzip: invalid header''))
   \<and> example_gzip (take 13 gzip_abc) = Inr (Reader [] (Some (Error ''unexpected EOF'')))
   \<and> handleDecompression example_unicode example_gzip gzip_heap (Some 3) (take 13 gzip_abc) =
       (take 13 gzip_abc, Some (Error ''unexpected EOF''))"
proof -
  have a: "strings_Contains (encodingHeader_of example_unicode gzip_heap 3) ''gzip''"
    by code_simp
  have b: "example_gzip ''<html></html>'' = Inl (Error ''gzip: invalid header'')"
    by (simp add: example_gzip_def gzip_abc_def)
  have c: "example_gzip (take 13 gzip_abc) = Inr (Reader [] (Some (Error ''unexpected EOF'')))"
    by (simp add: example_gzip_def gzip_abc_def)
  show ?thesis
    using a b c
      handleDecompression_fallback [OF a, of example_gzip "''<html></html>''"
        "Error ''gzip: invalid header''"]
      handleDecompression_fallback [OF a, of example_gzip "take 13 gzip_abc"
        "Error ''unexpected EOF''"]
    by simp
qed

subsection \<open>rawHasBody\<close>



subsection \<open>dump\<close>

lemma DumpRequestOut_fresh:
  "httputil_DumpRequestOut writeRequest (hr\<lparr>reqBody := Some (Reader bs None)\<rparr>) =
     (writeRequest (hr\<lparr>reqBody := Some (Reader bs None)\<rparr>),
      hr\<lparr>reqBody := Some (Reader bs None)\<rparr>)"
  by (simp add: httputil_DumpRequestOut_def)

text \<open>
  C10. Let \<open>g\<close> be a structured request, in whatever state its body is, and \<open>fresh\<close> its
  \<^verbatim>\<open>http.Request\<close> with a reader over the bytes of \<^verbatim>\<open>BodyBytes()\<close> that has not been read.
  The first call of \<open>dump\<close> returns the rendering of \<open>fresh\<close> and leaves \<open>fresh\<close> in the
  request: the body is there in full after the call. The second call, on the request as
  the first left it, returns the same result and leaves the same request.
\<close>

theorem dump_twice:
  assumes "request g = Some r" and "httpRequest r = Some hr"
  shows "let fresh = hr\<lparr>reqBody :=
                 Some (Reader (case BodyBytes r of Inl err \<Rightarrow> [] | Inr bs \<Rightarrow> bs) None)\<rparr>;
             g' = g\<lparr>request := Some (r\<lparr>httpRequest := Some fresh\<rparr>)\<rparr>
         in dump writeRequest DumpRequestRaw ExpandMapValues (Some g) reqURL =
              Returned (writeRequest fresh, g')
            \<and> dump writeRequest DumpRequestRaw ExpandMapValues (Some g') reqURL =
              Returned (writeRequest fresh, g')"
  using assms by (simp add: dump_def Let_def DumpRequestOut_fresh)

theorem dump_twice_witness:
  "request spent_request =
     Some \<lparr>BodyBytes = Inr ''a=1'',
           httpRequest = Some \<lparr>URL = ''/login'', reqBody = Some (Reader [] None),
                               Response = None\<rparr>\<rparr>
   \<and> dump write_url_and_body no_raw_dump (\<lambda>m. Map.empty) (Some spent_request) ''http://x/login'' =
       Returned (Inr (''/login'' @ [newline] @ ''a=1''), rewound_request)
   \<and> dump write_url_and_body no_raw_dump (\<lambda>m. Map.empty) (Some rewound_request) ''http://x/login'' =
       Returned (Inr (''/login'' @ [newline] @ ''a=1''), rewound_request)"
  using dump_twice [of spent_request
      "\<lparr>BodyBytes = Inr ''a=1'',
        httpRequest = Some \<lparr>URL = ''/login'', reqBody = Some (Reader [] None), Response = None\<rparr>\<rparr>"
      "\<lparr>URL = ''/login'', reqBody = Some (Reader [] None), Response = None\<rparr>"
      write_url_and_body no_raw_dump "\<lambda>m. Map.empty" "''http://x/login''"]
  by (simp add: spent_request_def rewound_request_def write_url_and_body_def Let_def)

end
